theory Spec2Isabelle
  imports Complex_Main "HOL-Library.Char_ord" "HOL-Library.List_Lexorder" "HOL-Library.Multiset"
begin

section \<open>The tabular dataset\<close>

text \<open>
  \<^verbatim>\<open>EDAAnalyzer\<close> (src/scripts/exploratory_data_analyzer.py) holds one pandas
  DataFrame in \<^verbatim>\<open>self.data\<close> and every method reads it. A frame is an ordered
  collection of labelled columns. A numeric column holds floating point cells, where
  the missing value is NaN; an object column holds strings, where the missing value is
  None. Cells of numeric columns are modelled as exact rationals (rounding error and
  the infinities of float64 are not represented) and NaN as \<open>None\<close>. Boolean columns
  are not represented. A label is a string or a number: column labels are strings, the
  keys of a grouping are the values of the grouped column. Column labels are looked up
  from the left, as \<^verbatim>\<open>self.data[column]\<close> does on a frame whose labels are unique.
\<close>

datatype label = Name string | Number rat

datatype column = NumCol "rat option list" | StrCol "string option list"

type_synonym dataset = "(label \<times> column) list"

type_synonym series = "(label \<times> rat option) list"

record analyzer =
  data :: dataset

datatype error =
    KeyError label
  | IndexError
  | TypeError
  | ValueError
  | ZeroDivisionError
  | AttributeError

text \<open>\<^verbatim>\<open>self.data[column]\<close>: a label that is absent raises KeyError.\<close>

definition getitem :: "dataset \<Rightarrow> label \<Rightarrow> error + column" where
  "getitem ds c = (case map_of ds c of None \<Rightarrow> Inl (KeyError c) | Some col \<Rightarrow> Inr col)"

text \<open>\<^verbatim>\<open>DataFrame._get_numeric_data()\<close>: the numeric columns, in frame order.\<close>

definition get_numeric_data :: "dataset \<Rightarrow> (label \<times> rat option list) list" where
  "get_numeric_data ds =
     concat (map (\<lambda>(c, col). case col of NumCol xs \<Rightarrow> [(c, xs)] | StrCol _ \<Rightarrow> []) ds)"

text \<open>\<^verbatim>\<open>Series.dropna()\<close>: the present values, in row order.\<close>

definition dropna :: "'a option list \<Rightarrow> 'a list" where
  "dropna xs = concat (map (\<lambda>x. case x of None \<Rightarrow> [] | Some v \<Rightarrow> [v]) xs)"

text \<open>\<^verbatim>\<open>isna()\<close> on one column: the mask of its missing cells.\<close>

fun isna :: "column \<Rightarrow> bool list" where
  "isna (NumCol xs) = map (\<lambda>x. x = None) xs"
| "isna (StrCol xs) = map (\<lambda>x. x = None) xs"

subsection \<open>Arithmetic and comparison with NaN\<close>

text \<open>
  An arithmetic operation with a NaN operand is NaN; every ordering comparison with a
  NaN operand is false.
\<close>

definition nan_lift2 :: "(rat \<Rightarrow> rat \<Rightarrow> rat) \<Rightarrow> rat option \<Rightarrow> rat option \<Rightarrow> rat option" where
  "nan_lift2 f a b =
     (case a of None \<Rightarrow> None | Some x \<Rightarrow> (case b of None \<Rightarrow> None | Some y \<Rightarrow> Some (f x y)))"

fun nan_less :: "rat option \<Rightarrow> rat option \<Rightarrow> bool" where
  "nan_less (Some x) (Some y) = (x < y)"
| "nan_less _ _ = False"

text \<open>Label-aligned arithmetic of two series that carry the same index.\<close>

definition series_op :: "(rat \<Rightarrow> rat \<Rightarrow> rat) \<Rightarrow> series \<Rightarrow> series \<Rightarrow> series" where
  "series_op f a b = map (\<lambda>((c, x), (_, y)). (c, nan_lift2 f x y)) (zip a b)"

definition series_scale :: "rat \<Rightarrow> series \<Rightarrow> series" where
  "series_scale k a = map (\<lambda>(c, x). (c, nan_lift2 (*) (Some k) x)) a"

subsection \<open>Quantiles\<close>

text \<open>
  \<^verbatim>\<open>DataFrame.quantile(q)\<close> and \<^verbatim>\<open>Series.quantile(q)\<close> mask the NaN cells and
  hand the rest to numpy's percentile with the default method \<^verbatim>\<open>linear\<close>: the
  virtual index is \<open>q * (n - 1)\<close>, the neighbours are the sorted values at its floor and
  at the next position (the last position when there is no next), and the two are
  blended by numpy's \<^verbatim>\<open>_lerp\<close>, which switches formula at weight one half. A
  column without a present value has the quantile NaN.
\<close>

definition lerp :: "rat \<Rightarrow> rat \<Rightarrow> rat \<Rightarrow> rat" where
  "lerp a b t = (if 1 / 2 \<le> t then b - (b - a) * (1 - t) else a + (b - a) * t)"

definition percentile :: "rat list \<Rightarrow> rat \<Rightarrow> rat option" where
  "percentile vs q =
     (if vs = [] then None
      else let s = sort vs;
               n = length s;
               vi = q * of_nat (n - 1);
               prev = nat \<lfloor>vi\<rfloor>;
               nxt = min (prev + 1) (n - 1);
               gamma = vi - of_int \<lfloor>vi\<rfloor>
           in Some (lerp (s ! prev) (s ! nxt) gamma))"

definition quantile :: "(label \<times> rat option list) list \<Rightarrow> rat \<Rightarrow> series" where
  "quantile nd q = map (\<lambda>(c, xs). (c, percentile (dropna xs) q)) nd"

subsection \<open>Bar charts and their annotation\<close>

text \<open>
  Every plotting method hands a labelled series to \<^verbatim>\<open>sns.barplot\<close>, which draws
  one patch per entry whose height is present, in series order, and then walks
  \<^verbatim>\<open>enumerate(ax.patches)\<close>: for patch \<open>idx\<close> it takes the label \<^verbatim>\<open>keys[idx]\<close>,
  reads the series at that label and writes the value over the bar. An index beyond
  the keys raises IndexError and a label that the series lacks raises KeyError. The
  second argument lists the positions of the patches that the loop visits; the
  methods take the axes to be empty before the call, except where the bars that are
  already on the axes are an argument of their own.
\<close>

fun annotate :: "(label \<times> 'v) list \<Rightarrow> nat list \<Rightarrow> error + 'v list" where
  "annotate s [] = Inr []"
| "annotate s (idx # rest) =
     (if length s \<le> idx then Inl IndexError
      else (case map_of s (fst (s ! idx)) of
              None \<Rightarrow> Inl (KeyError (fst (s ! idx)))
            | Some v \<Rightarrow>
                (case annotate s rest of
                   Inl e \<Rightarrow> Inl e
                 | Inr vs \<Rightarrow> Inr (v # vs))))"

section \<open>missing_values\<close>

text \<open>
  \<^verbatim>\<open>self.data.isna().mean() * 100\<close> is, per column, the mean of the mask of missing
  cells times one hundred; the mean of a column of no rows is NaN. The printed series
  keeps the entries that compare greater than zero.
\<close>

definition mask_mean :: "bool list \<Rightarrow> rat option" where
  "mask_mean bs =
     (if bs = [] then None
      else Some (of_nat (length (filter (\<lambda>b. b) bs)) / of_nat (length bs)))"

definition missing_values :: "analyzer \<Rightarrow> series" where
  "missing_values self =
     (let missing = map (\<lambda>(c, col). (c, nan_lift2 (*) (mask_mean (isna col)) (Some 100)))
                      (data self)
      in filter (\<lambda>(c, v). nan_less (Some 0) v) missing)"

text \<open>
  The quantities of the specification's sentence: the number of rows of a column, the
  number of its rows with an absent value.
\<close>

fun total_rows :: "column \<Rightarrow> nat" where
  "total_rows (NumCol xs) = length xs"
| "total_rows (StrCol xs) = length xs"

fun missing_count :: "column \<Rightarrow> nat" where
  "missing_count (NumCol xs) = length (filter (\<lambda>x. x = None) xs)"
| "missing_count (StrCol xs) = length (filter (\<lambda>x. x = None) xs)"

section \<open>count_outliers\<close>

text \<open>
  The method computes the two quartile series of the numeric columns, the fences
  \<^verbatim>\<open>quartile_one - 1.5 * iqr\<close> and \<^verbatim>\<open>quartile_three + 1.5 * iqr\<close>, then for each
  key of \<^verbatim>\<open>lower_bound\<close> selects the rows of \<^verbatim>\<open>self.data\<close> whose cell is below
  the lower or above the upper fence and records how many there are. The table of
  counts is sorted by count, drawn as a bar chart and each bar is annotated.
\<close>

record outlier_report =
  quartile_one :: series
  quartile_three :: series
  iqr :: series
  upper_bound :: series
  lower_bound :: series
  outliers :: "(label \<times> nat) list"
  outlier_annotations :: "nat list"

fun outlier_loop :: "dataset \<Rightarrow> ((label \<times> rat option) \<times> (label \<times> rat option)) list
    \<Rightarrow> error + (label \<times> nat) list" where
  "outlier_loop ds [] = Inr []"
| "outlier_loop ds (((column, lo), (_, hi)) # rest) =
     (case getitem ds column of
        Inl e \<Rightarrow> Inl e
      | Inr (StrCol _) \<Rightarrow> Inl TypeError
      | Inr (NumCol xs) \<Rightarrow>
          (let column_outliers = filter (\<lambda>x. nan_less x lo \<or> nan_less hi x) xs;
               count = length column_outliers
           in case outlier_loop ds rest of
                Inl e \<Rightarrow> Inl e
              | Inr acc \<Rightarrow> Inr ((column, count) # acc)))"

definition count_outliers :: "analyzer \<Rightarrow> error + outlier_report" where
  "count_outliers self =
     (let numerical_data = get_numeric_data (data self);
          q1 = quantile numerical_data (1 / 4);
          q3 = quantile numerical_data (3 / 4);
          iq = series_op (-) q3 q1;
          ub = series_op (+) q3 (series_scale (3 / 2) iq);
          lb = series_op (-) q1 (series_scale (3 / 2) iq)
      in case outlier_loop (data self) (zip lb ub) of
           Inl e \<Rightarrow> Inl e
         | Inr counts \<Rightarrow>
             (let table = sort_key snd counts
              in case annotate table [0..<length table] of
                   Inl e \<Rightarrow> Inl e
                 | Inr values \<Rightarrow>
                     Inr \<lparr>quartile_one = q1, quartile_three = q3, iqr = iq,
                          upper_bound = ub, lower_bound = lb,
                          outliers = table, outlier_annotations = values\<rparr>))"

text \<open>The two fences of one column, as the series arithmetic above computes them.\<close>

definition fence_lo :: "rat option list \<Rightarrow> rat option" where
  "fence_lo xs =
     (let Q1 = percentile (dropna xs) (1 / 4); Q3 = percentile (dropna xs) (3 / 4)
      in nan_lift2 (-) Q1 (nan_lift2 (*) (Some (3 / 2)) (nan_lift2 (-) Q3 Q1)))"

definition fence_hi :: "rat option list \<Rightarrow> rat option" where
  "fence_hi xs =
     (let Q1 = percentile (dropna xs) (1 / 4); Q3 = percentile (dropna xs) (3 / 4)
      in nan_lift2 (+) Q3 (nan_lift2 (*) (Some (3 / 2)) (nan_lift2 (-) Q3 Q1)))"

section \<open>describe_skewness\<close>

text \<open>
  \<^verbatim>\<open>self.data.skew(numeric_only=True)\<close> is pandas' \<^verbatim>\<open>nanskew\<close> on each numeric
  column: with the present values, their count and mean, the second and third sums of
  the centred values (a sum of magnitude below \<open>1e-14\<close> is taken as zero), the result is
  \<^verbatim>\<open>(count * (count - 1) ** 0.5 / (count - 2)) * (m3 / m2 ** 1.5)\<close>, zero when \<open>m2\<close>
  is zero, and NaN when fewer than three values are present. The result is a real
  number here, since the roots need not be rational.
\<close>

definition zero_out_fperr :: "rat \<Rightarrow> rat" where
  "zero_out_fperr m = (if \<bar>m\<bar> < 1 / 10 ^ 14 then 0 else m)"

definition nanskew :: "rat option list \<Rightarrow> real option" where
  "nanskew xs =
     (let values = dropna xs;
          count = length values
      in if count < 3 then None
         else let mean = sum_list values / of_nat count;
                  adjusted = map (\<lambda>v. v - mean) values;
                  m2 = zero_out_fperr (sum_list (map (\<lambda>a. a * a) adjusted));
                  m3 = zero_out_fperr (sum_list (map (\<lambda>a. a * a * a) adjusted))
              in if m2 = 0 then Some 0
                 else Some (of_nat count * sqrt (of_nat (count - 1)) / of_nat (count - 2)
                            * (of_rat m3 / (of_rat m2 powr (3 / 2)))))"

text \<open>
  \<^verbatim>\<open>sort_values()\<close>: ascending by value, the NaN entries last. Entries of equal
  value keep their order here.
\<close>

definition present_entries :: "(label \<times> 'a option) list \<Rightarrow> (label \<times> 'a) list" where
  "present_entries s = concat (map (\<lambda>(c, x). case x of None \<Rightarrow> [] | Some v \<Rightarrow> [(c, v)]) s)"

definition sort_values :: "(label \<times> ('a :: linorder) option) list \<Rightarrow> (label \<times> 'a option) list" where
  "sort_values s =
     map (\<lambda>(c, v). (c, Some v)) (sort_key snd (present_entries s))
     @ filter (\<lambda>(c, x). x = None) s"

text \<open>
  \<^verbatim>\<open>round(decimals=3)\<close>: numpy scales by one thousand, rounds to the nearest
  integer with ties going to the even one, and scales back.
\<close>

definition round_half_even :: "real \<Rightarrow> int" where
  "round_half_even x =
     (let f = \<lfloor>x\<rfloor>; d = x - of_int f
      in if d < 1 / 2 then f
         else if 1 / 2 < d then f + 1
         else if even f then f else f + 1)"

definition round3 :: "real \<Rightarrow> real" where
  "round3 x = of_int (round_half_even (x * 1000)) / 1000"

record skewness_report =
  skewness_data :: "(label \<times> real option) list"
  skewness_annotations :: "real option list"

text \<open>
  \<^verbatim>\<open>sns.barplot\<close> is called without \<^verbatim>\<open>ax=\<close>, so it draws on the current axes
  of pyplot, and \<^verbatim>\<open>ax.patches\<close> lists every bar on those axes: the bars that
  earlier calls left there and the bars of this call. The argument \<open>bars\<close> is the
  number of bars on the current axes when the method is called, zero on fresh axes;
  the method gives back its result together with the number of bars on the axes after
  the call.
\<close>

definition describe_skewness_on :: "nat \<Rightarrow> analyzer \<Rightarrow> (error + skewness_report) \<times> nat" where
  "describe_skewness_on bars self =
     (let skew = map (\<lambda>(c, xs). (c, nanskew xs)) (get_numeric_data (data self));
          skewness_data = map (\<lambda>(c, v). (c, map_option round3 v)) (sort_values skew);
          patches = bars + length (dropna (map snd skewness_data))
      in (case annotate skewness_data [0..<patches] of
            Inl e \<Rightarrow> Inl e
          | Inr values \<Rightarrow>
              Inr \<lparr>skewness_data = skewness_data, skewness_annotations = values\<rparr>,
          patches))"




subsection \<open>Skewness as the specification words it\<close>

text \<open>
  The skewness of a sample is its third standardized moment: the third central moment
  divided by the cube of the standard deviation, which is the root of the second
  central moment. The estimate from a sample of \<open>n\<close> values carries the factor
  \<open>sqrt (n * (n - 1)) / (n - 2)\<close>.
\<close>

definition central_moment :: "nat \<Rightarrow> rat list \<Rightarrow> rat" where
  "central_moment k vs =
     (let mu = sum_list vs / of_nat (length vs)
      in sum_list (map (\<lambda>v. (v - mu) ^ k) vs) / of_nat (length vs))"

definition standardized_third_moment :: "rat list \<Rightarrow> real" where
  "standardized_third_moment vs =
     of_rat (central_moment 3 vs) / sqrt (of_rat (central_moment 2 vs)) ^ 3"

definition sample_skewness :: "rat list \<Rightarrow> real" where
  "sample_skewness vs =
     (let n = real (length vs)
      in sqrt (n * (n - 1)) / (n - 2) * standardized_third_moment vs)"

text \<open>
  What the method reports for a column with the present values \<open>vs\<close>: no value for
  fewer than three values; zero when the sum of the squared or of the cubed deviations
  from the mean is below \<open>1e-14\<close> in magnitude; the sample skewness otherwise.
\<close>

definition negligible :: "rat \<Rightarrow> bool" where
  "negligible s = (\<bar>s\<bar> < 1 / 10 ^ 14)"

definition reported_skewness :: "rat list \<Rightarrow> real option" where
  "reported_skewness vs =
     (if length vs < 3 then None
      else if negligible (of_nat (length vs) * central_moment 2 vs)
            \<or> negligible (of_nat (length vs) * central_moment 3 vs) then Some 0
      else Some (sample_skewness vs))"

section \<open>categorical_distribution\<close>

text \<open>
  \<^verbatim>\<open>self.data.groupby(by=column).size()\<close>: the keys are the distinct present values
  of the column in ascending order, each with the number of rows that carry it; a
  column that the frame lacks raises KeyError. \<^verbatim>\<open>sort_values()\<close> then orders the
  counts ascending (entries of equal count keep their order here).
\<close>

fun group_keys :: "column \<Rightarrow> label list" where
  "group_keys (NumCol xs) = map Number (sort (remdups (dropna xs)))"
| "group_keys (StrCol xs) = map Name (sort (remdups (dropna xs)))"

fun cell_labels :: "column \<Rightarrow> label option list" where
  "cell_labels (NumCol xs) = map (map_option Number) xs"
| "cell_labels (StrCol xs) = map (map_option Name) xs"

definition groupby_size :: "dataset \<Rightarrow> label \<Rightarrow> error + (label \<times> nat) list" where
  "groupby_size ds by =
     (case getitem ds by of
        Inl e \<Rightarrow> Inl e
      | Inr col \<Rightarrow>
          Inr (map (\<lambda>k. (k, length (filter (\<lambda>x. x = Some k) (cell_labels col))))
                   (group_keys col)))"

definition columns_of_interest :: "label list" where
  "columns_of_interest =
     [Name ''CurrencyCode'', Name ''ProviderId'', Name ''ProductCategory'', Name ''ChannelId'']"

record chart =
  chart_column :: label
  chart_bars :: "(label \<times> nat) list"
  chart_annotations :: "nat list"

record categorical_report =
  charts :: "chart list"
  removed_axes :: "nat list"

text \<open>
  The loop over \<^verbatim>\<open>enumerate(columns_of_interest)\<close>. The argument \<open>idx\<close> is the
  Python variable \<^verbatim>\<open>idx\<close>: the outer loop assigns it the position of the column,
  and the inner loop over \<^verbatim>\<open>enumerate(sns_plot.patches)\<close> assigns it again, once per
  patch. The function returns its last value with the charts drawn.
\<close>

fun categorical_loop :: "dataset \<Rightarrow> (nat \<times> label) list \<Rightarrow> nat \<Rightarrow> error + (nat \<times> chart list)" where
  "categorical_loop ds [] idx = Inr (idx, [])"
| "categorical_loop ds ((i, column) # rest) idx =
     (case groupby_size ds column of
        Inl e \<Rightarrow> Inl e
      | Inr sizes \<Rightarrow>
          (let grouping_counts = sort_key snd sizes;
               patches = [0..<length grouping_counts]
           in case annotate grouping_counts patches of
                Inl e \<Rightarrow> Inl e
              | Inr values \<Rightarrow>
                  (let idx' = (if patches = [] then i else last patches)
                   in case categorical_loop ds rest idx' of
                        Inl e \<Rightarrow> Inl e
                      | Inr (final, drawn) \<Rightarrow>
                          Inr (final, \<lparr>chart_column = column, chart_bars = grouping_counts,
                                      chart_annotations = values\<rparr> # drawn))))"

text \<open>
  After the loop, \<^verbatim>\<open>range(idx+1, len(columns_of_interest))\<close> names the axes that
  \<^verbatim>\<open>plt.delaxes\<close> removes from the figure.
\<close>

definition categorical_distribution :: "analyzer \<Rightarrow> error + categorical_report" where
  "categorical_distribution self =
     (case categorical_loop (data self) (enumerate 0 columns_of_interest) 0 of
        Inl e \<Rightarrow> Inl e
      | Inr (idx, drawn) \<Rightarrow>
          Inr \<lparr>charts = drawn, removed_axes = [idx + 1..<length columns_of_interest]\<rparr>)"

text \<open>The charts that are still on the figure when the method returns.\<close>

definition remaining_charts :: "categorical_report \<Rightarrow> chart list" where
  "remaining_charts r =
     map snd (filter (\<lambda>(i, c). i \<notin> set (removed_axes r)) (enumerate 0 (charts r)))"

section \<open>fraud_analysis\<close>

text \<open>
  \<^verbatim>\<open>groupby(by='FraudResult').get_group(name=1)\<close> selects the rows whose
  \<^verbatim>\<open>FraudResult\<close> cell equals one and raises KeyError when there is none;
  \<^verbatim>\<open>sort_values(by='Amount')\<close> orders them by amount, NaN last.
\<close>

fun group_mask :: "column \<Rightarrow> bool list" where
  "group_mask (NumCol fs) = map (\<lambda>f. f = Some 1) fs"
| "group_mask (StrCol fs) = map (\<lambda>f. False) fs"

definition group_cells :: "column \<Rightarrow> 'a list \<Rightarrow> 'a list" where
  "group_cells by cells = map snd (filter fst (zip (group_mask by) cells))"

definition sort_cells :: "rat option list \<Rightarrow> rat option list" where
  "sort_cells cells = map Some (sort (dropna cells)) @ filter (\<lambda>x. x = None) cells"

text \<open>
  \<^verbatim>\<open>pd.qcut(x, q=10, duplicates='drop', retbins=True)\<close>: the bin edges are the
  quantiles of the present values at \<open>0, 1/10, \<dots>, 1\<close> with repeated edges dropped
  (first occurrences are kept). A value is placed by \<^verbatim>\<open>searchsorted\<close> from the
  left, a value equal to the first edge goes to the first bin, and a value that is NaN
  or lands before the first or after the last edge has no bin.
\<close>

function unique :: "'a list \<Rightarrow> 'a list" where
  "unique [] = []"
| "unique (x # xs) = x # unique (removeAll x xs)"
  by pat_completeness auto
termination
  by (relation "measure length") (auto simp: less_Suc_eq_le length_removeAll_less_eq)

definition qcut_bins :: "rat list \<Rightarrow> nat \<Rightarrow> rat option list" where
  "qcut_bins vs q = unique (map (\<lambda>k. percentile vs (of_nat k / of_nat q)) [0..<q + 1])"

fun nan_eq :: "rat option \<Rightarrow> rat option \<Rightarrow> bool" where
  "nan_eq (Some x) (Some y) = (x = y)"
| "nan_eq _ _ = False"

definition bin_code :: "rat option list \<Rightarrow> rat option \<Rightarrow> nat option" where
  "bin_code bins x =
     (let found = length (takeWhile (\<lambda>b. nan_less b x) bins);
          ids = (case bins of [] \<Rightarrow> found | b0 # _ \<Rightarrow> if nan_eq x b0 then 1 else found)
      in if x = None \<or> ids = length bins \<or> ids = 0 then None else Some (ids - 1))"

text \<open>
  The labels \<^verbatim>\<open>f"{int(bin_edges[i])} UGX - {int(bin_edges[i+1])} UGX"\<close>: \<^verbatim>\<open>int\<close>
  truncates towards zero and raises ValueError on NaN.
\<close>

definition int_trunc :: "rat \<Rightarrow> int" where
  "int_trunc x = (if 0 \<le> x then \<lfloor>x\<rfloor> else \<lceil>x\<rceil>)"

function string_of_nat :: "nat \<Rightarrow> string" where
  "string_of_nat n =
     (if n < 10 then [char_of (48 + n)]
      else string_of_nat (n div 10) @ [char_of (48 + n mod 10)])"
  by pat_completeness auto
termination
  by (relation "measure id") auto

definition string_of_int :: "int \<Rightarrow> string" where
  "string_of_int i =
     (if i < 0 then CHR ''-'' # string_of_nat (nat (- i)) else string_of_nat (nat i))"

definition bin_label :: "int \<Rightarrow> int \<Rightarrow> string" where
  "bin_label lo hi = string_of_int lo @ '' UGX - '' @ string_of_int hi @ '' UGX''"

fun format_bin_labels :: "rat option list \<Rightarrow> error + string list" where
  "format_bin_labels (Some a # Some b # rest) =
     (case format_bin_labels (Some b # rest) of
        Inl e \<Rightarrow> Inl e
      | Inr ls \<Rightarrow> Inr (bin_label (int_trunc a) (int_trunc b) # ls))"
| "format_bin_labels (_ # _ # rest) = Inl ValueError"
| "format_bin_labels _ = Inr []"

record fraud_report =
  bin_edges :: "rat option list"
  bin_labels :: "string list"
  bin_counts :: "(label \<times> nat) list"
  fraud_annotations :: "nat list"

text \<open>
  \<^verbatim>\<open>rename_categories\<close> raises ValueError when two labels are equal.
  \<^verbatim>\<open>value_counts().sort_index()\<close> lists every category in category order with the
  number of rows placed in it; rows without a bin are not counted.
\<close>

definition fraud_analysis :: "analyzer \<Rightarrow> error + fraud_report" where
  "fraud_analysis self =
     (case getitem (data self) (Name ''FraudResult'') of
        Inl e \<Rightarrow> Inl e
      | Inr by \<Rightarrow>
          if True \<notin> set (group_mask by) then Inl (KeyError (Number 1))
          else (case getitem (data self) (Name ''Amount'') of
                  Inl e \<Rightarrow> Inl e
                | Inr (StrCol _) \<Rightarrow> Inl TypeError
                | Inr (NumCol cells) \<Rightarrow>
                    (let amount = sort_cells (group_cells by cells);
                         edges = qcut_bins (dropna amount) 10;
                         codes = map (bin_code edges) amount
                     in case format_bin_labels edges of
                          Inl e \<Rightarrow> Inl e
                        | Inr labels \<Rightarrow>
                            if \<not> distinct labels then Inl ValueError
                            else (let counts = map (\<lambda>j. (Name (labels ! j),
                                                   length (filter (\<lambda>c. c = Some j) codes)))
                                                 [0..<length labels]
                                  in case annotate counts [0..<length counts] of
                                       Inl e \<Rightarrow> Inl e
                                     | Inr values \<Rightarrow>
                                         Inr \<lparr>bin_edges = edges, bin_labels = labels,
                                              bin_counts = counts,
                                              fraud_annotations = values\<rparr>))))"

section \<open>Facts about the library primitives\<close>

lemma dropna_append: "dropna (xs @ ys) = dropna xs @ dropna ys"
  by (simp add: dropna_def)

lemma dropna_map_Some: "dropna (map Some vs) = vs"
  by (induction vs) (auto simp: dropna_def)

lemma series_op_map:
  "series_op f (map (\<lambda>(c, xs). (c, g xs)) nd) (map (\<lambda>(c, xs). (c, h xs)) nd) =
     map (\<lambda>(c, xs). (c, nan_lift2 f (g xs) (h xs))) nd"
  by (induction nd) (auto simp: series_op_def)

lemma series_scale_map:
  "series_scale k (map (\<lambda>(c, xs). (c, g xs)) nd) =
     map (\<lambda>(c, xs). (c, nan_lift2 (*) (Some k) (g xs))) nd"
  by (induction nd) (auto simp: series_scale_def)

lemma zip_series_map:
  "zip (map (\<lambda>(c, xs). (c, g xs)) nd) (map (\<lambda>(c, xs). (c, h xs)) nd) =
     map (\<lambda>(c, xs). ((c, g xs), (c, h xs))) nd"
  by (induction nd) auto

lemma get_numeric_data_iff:
  "(c, xs) \<in> set (get_numeric_data ds) \<longleftrightarrow> (c, NumCol xs) \<in> set ds"
  by (induction ds) (auto simp: get_numeric_data_def split: column.splits)

lemma getitem_numeric:
  assumes "distinct (map fst ds)" "(c, xs) \<in> set (get_numeric_data ds)"
  shows "getitem ds c = Inr (NumCol xs)"
  using assms by (simp add: getitem_def get_numeric_data_iff)

lemma distinct_numeric_labels:
  "distinct (map fst ds) \<Longrightarrow> distinct (map fst (get_numeric_data ds))"
proof (induction ds)
  case Nil
  then show ?case by (simp add: get_numeric_data_def)
next
  case (Cons p ds)
  obtain c col where p: "p = (c, col)" by (cases p)
  have tl: "get_numeric_data (p # ds) =
      (case col of NumCol xs \<Rightarrow> [(c, xs)] | StrCol _ \<Rightarrow> []) @ get_numeric_data ds"
    by (simp add: get_numeric_data_def p)
  have "c \<notin> fst ` set (get_numeric_data ds)"
  proof
    assume "c \<in> fst ` set (get_numeric_data ds)"
    then obtain xs where "(c, xs) \<in> set (get_numeric_data ds)" by auto
    then have "(c, NumCol xs) \<in> set ds" by (simp add: get_numeric_data_iff)
    then have "c \<in> fst ` set ds" by force
    then show False using Cons.prems by (simp add: p)
  qed
  then show ?case using Cons by (cases col) (simp_all add: tl)
qed

lemma map_fst_labelled: "map fst (map (\<lambda>(c, xs). (c, f xs)) nd) = map fst nd"
  by (induction nd) auto

lemma map_of_labelled:
  assumes "distinct (map fst nd)" "(c, xs) \<in> set nd"
  shows "map_of (map (\<lambda>(c, xs). (c, f xs)) nd) c = Some (f xs)"
  using assms by (induction nd) (auto simp: rev_image_eqI)

lemma distinct_fst_sort_key:
  assumes "distinct (map fst l)"
  shows "distinct (map fst (sort_key k l))"
proof -
  have "mset (map fst (sort_key k l)) = mset (map fst l)" by simp
  then show ?thesis using assms mset_eq_imp_distinct_iff by blast
qed

lemma map_of_sort_key:
  assumes "distinct (map fst l)"
  shows "map_of (sort_key k l) c = map_of l c"
proof -
  have d: "distinct (map fst (sort_key k l))"
    using assms by (rule distinct_fst_sort_key)
  show ?thesis
  proof (cases "map_of l c")
    case None
    then have "c \<notin> fst ` set l" by (simp add: map_of_eq_None_iff)
    then have "c \<notin> fst ` set (sort_key k l)" by simp
    then have "map_of (sort_key k l) c = None"
      by (simp only: map_of_eq_None_iff not_False_eq_True)
    then show ?thesis using None by simp
  next
    case (Some v)
    then have "(c, v) \<in> set (sort_key k l)" by (simp add: map_of_SomeD)
    then show ?thesis using d Some by simp
  qed
qed

lemma annotate_distinct:
  assumes "distinct (map fst s)" "\<forall>i\<in>set idxs. i < length s"
  shows "annotate s idxs = Inr (map (\<lambda>i. snd (s ! i)) idxs)"
  using assms(2)
proof (induction idxs)
  case Nil
  then show ?case by simp
next
  case (Cons i idxs)
  have i: "i < length s" using Cons.prems by simp
  then have "(fst (s ! i), snd (s ! i)) \<in> set s" by simp
  then have "map_of s (fst (s ! i)) = Some (snd (s ! i))"
    using assms(1) by (simp only: map_of_eq_Some_iff)
  then show ?case using Cons i by simp
qed

lemma annotate_all:
  assumes "distinct (map fst s)"
  shows "annotate s [0..<length s] = Inr (map snd s)"
proof -
  have "annotate s [0..<length s] = Inr (map (\<lambda>i. snd (s ! i)) [0..<length s])"
    using assms by (intro annotate_distinct) auto
  also have "map (\<lambda>i. snd (s ! i)) [0..<length s] = map snd (map (\<lambda>i. s ! i) [0..<length s])"
    by simp
  also have "map (\<lambda>i. s ! i) [0..<length s] = s" by (rule map_nth)
  finally show ?thesis .
qed

section \<open>count_outliers\<close>

lemma outlier_loop_map:
  assumes "distinct (map fst ds)" "set nd \<subseteq> set (get_numeric_data ds)"
  shows "outlier_loop ds (map (\<lambda>(c, xs). ((c, g xs), (c, h xs))) nd) =
     Inr (map (\<lambda>(c, xs). (c, length (filter (\<lambda>x. nan_less x (g xs) \<or> nan_less (h xs) x) xs))) nd)"
  using assms(2)
proof (induction nd)
  case Nil
  then show ?case by simp
next
  case (Cons p nd)
  obtain c xs where p: "p = (c, xs)" by (cases p)
  have "getitem ds c = Inr (NumCol xs)"
    using Cons.prems assms(1) by (intro getitem_numeric) (auto simp: p)
  then show ?case using Cons by (simp add: p)
qed

lemma count_outliers_eval:
  assumes "distinct (map fst (data self))"
  shows "\<exists>r. count_outliers self = Inr r
      \<and> lower_bound r = map (\<lambda>(c, xs). (c, fence_lo xs)) (get_numeric_data (data self))
      \<and> upper_bound r = map (\<lambda>(c, xs). (c, fence_hi xs)) (get_numeric_data (data self))
      \<and> outliers r = sort_key snd (map (\<lambda>(c, xs).
           (c, length (filter (\<lambda>x. nan_less x (fence_lo xs) \<or> nan_less (fence_hi xs) x) xs)))
           (get_numeric_data (data self)))
      \<and> outlier_annotations r = map snd (outliers r)"
proof -
  let ?nd = "get_numeric_data (data self)"
  let ?counts = "map (\<lambda>(c, xs).
      (c, length (filter (\<lambda>x. nan_less x (fence_lo xs) \<or> nan_less (fence_hi xs) x) xs))) ?nd"
  have q: "quantile ?nd q = map (\<lambda>(c, xs). (c, percentile (dropna xs) q)) ?nd" for q
    by (simp add: quantile_def)
  have lb: "series_op (-) (quantile ?nd (1 / 4))
              (series_scale (3 / 2) (series_op (-) (quantile ?nd (3 / 4)) (quantile ?nd (1 / 4))))
            = map (\<lambda>(c, xs). (c, fence_lo xs)) ?nd"
    unfolding q series_op_map series_scale_map by (simp add: fence_lo_def Let_def)
  have ub: "series_op (+) (quantile ?nd (3 / 4))
              (series_scale (3 / 2) (series_op (-) (quantile ?nd (3 / 4)) (quantile ?nd (1 / 4))))
            = map (\<lambda>(c, xs). (c, fence_hi xs)) ?nd"
    unfolding q series_op_map series_scale_map by (simp add: fence_hi_def Let_def)
  have loop: "outlier_loop (data self)
       (zip (map (\<lambda>(c, xs). (c, fence_lo xs)) ?nd) (map (\<lambda>(c, xs). (c, fence_hi xs)) ?nd)) =
     Inr ?counts"
    unfolding zip_series_map using assms by (intro outlier_loop_map) auto
  have "distinct (map fst ?counts)"
    using distinct_numeric_labels [OF assms] by (simp only: map_fst_labelled)
  then have "distinct (map fst (sort_key snd ?counts))"
    by (rule distinct_fst_sort_key)
  then have ann: "annotate (sort_key snd ?counts) [0..<length (sort_key snd ?counts)] =
      Inr (map snd (sort_key snd ?counts))"
    by (rule annotate_all)
  show ?thesis
    unfolding count_outliers_def Let_def lb ub loop using ann by simp
qed

lemma count_outliers_column:
  assumes "distinct (map fst (data self))" and "(c, NumCol xs) \<in> set (data self)"
  shows "\<exists>r. count_outliers self = Inr r
     \<and> map_of (lower_bound r) c = Some (fence_lo xs)
     \<and> map_of (upper_bound r) c = Some (fence_hi xs)
     \<and> map_of (outliers r) c =
         Some (length (filter (\<lambda>x. nan_less x (fence_lo xs) \<or> nan_less (fence_hi xs) x) xs))"
proof -
  let ?nd = "get_numeric_data (data self)"
  let ?cnt = "\<lambda>xs. length (filter (\<lambda>x. nan_less x (fence_lo xs) \<or> nan_less (fence_hi xs) x) xs)"
  obtain r where r: "count_outliers self = Inr r"
      "lower_bound r = map (\<lambda>(c, xs). (c, fence_lo xs)) ?nd"
      "upper_bound r = map (\<lambda>(c, xs). (c, fence_hi xs)) ?nd"
      "outliers r = sort_key snd (map (\<lambda>(c, xs). (c, ?cnt xs)) ?nd)"
    using count_outliers_eval [OF assms(1)] by blast
  have d: "distinct (map fst ?nd)" using assms(1) by (rule distinct_numeric_labels)
  have m: "(c, xs) \<in> set ?nd" using assms(2) by (simp add: get_numeric_data_iff)
  have lo: "map_of (lower_bound r) c = Some (fence_lo xs)"
    unfolding r(2) by (rule map_of_labelled [OF d m])
  have hi: "map_of (upper_bound r) c = Some (fence_hi xs)"
    unfolding r(3) by (rule map_of_labelled [OF d m])
  have dd: "distinct (map fst (map (\<lambda>(c, xs). (c, ?cnt xs)) ?nd))"
    using d by (simp only: map_fst_labelled)
  have "map_of (outliers r) c = Some (?cnt xs)"
    unfolding r(4) map_of_sort_key [OF dd] map_of_labelled [OF d m] ..
  then show ?thesis using r(1) lo hi by blast
qed

text \<open>
  C10. A row whose cell in a numeric column is missing is never counted for that
  column: a comparison with NaN on either side is false, so the reported count is the
  number of rows with a present cell outside the cut-offs, and it does not exceed the
  number of rows with a present cell.
\<close>

theorem count_outliers_skips_missing:
  assumes "distinct (map fst (data self))" and "(c, NumCol xs) \<in> set (data self)"
  shows "\<exists>r lo hi k. count_outliers self = Inr r
     \<and> map_of (lower_bound r) c = Some lo \<and> map_of (upper_bound r) c = Some hi
     \<and> \<not> nan_less None lo \<and> \<not> nan_less hi None
     \<and> map_of (outliers r) c = Some k
     \<and> k = length (filter (\<lambda>x. x \<noteq> None \<and> (nan_less x lo \<or> nan_less hi x)) xs)
     \<and> k \<le> length (filter (\<lambda>x. x \<noteq> None) xs)"
proof -
  let ?P = "\<lambda>x. nan_less x (fence_lo xs) \<or> nan_less (fence_hi xs) x"
  obtain r where r: "count_outliers self = Inr r"
      "map_of (lower_bound r) c = Some (fence_lo xs)"
      "map_of (upper_bound r) c = Some (fence_hi xs)"
      "map_of (outliers r) c = Some (length (filter ?P xs))"
    using count_outliers_column [OF assms] by blast
  have nn: "\<not> nan_less None lo" "\<not> nan_less hi None" for lo hi
    by (cases hi; simp)+
  have e: "?P = (\<lambda>x. x \<noteq> None \<and> ?P x)"
  proof
    fix x show "?P x = (x \<noteq> None \<and> ?P x)" using nn by (cases x) auto
  qed
  have k1: "length (filter ?P xs) = length (filter (\<lambda>x. x \<noteq> None \<and> ?P x) xs)"
    using e by metis
  have "filter (\<lambda>x. x \<noteq> None \<and> ?P x) xs = filter ?P (filter (\<lambda>x. x \<noteq> None) xs)"
    by (simp add: conj_commute)
  then have k2: "length (filter (\<lambda>x. x \<noteq> None \<and> ?P x) xs) \<le> length (filter (\<lambda>x. x \<noteq> None) xs)"
    by (simp only: length_filter_le)
  show ?thesis using r k1 k2 nn by (intro exI conjI) (assumption | simp)+
qed

theorem count_outliers_skips_missing_witness:
  "distinct (map fst (data \<lparr>data = [(Name ''X'', NumCol [None, Some 1, Some 2, Some 3, Some 50, None])]\<rparr>))
   \<and> (Name ''X'', NumCol [None, Some 1, Some 2, Some 3, Some 50, None])
        \<in> set (data \<lparr>data = [(Name ''X'', NumCol [None, Some 1, Some 2, Some 3, Some 50, None])]\<rparr>)
   \<and> (\<exists>r k. count_outliers \<lparr>data = [(Name ''X'', NumCol [None, Some 1, Some 2, Some 3, Some 50, None])]\<rparr> = Inr r
        \<and> map_of (outliers r) (Name ''X'') = Some k
        \<and> k \<le> length (filter (\<lambda>x. x \<noteq> None) [None, Some 1, Some 2, Some 3, Some 50, None :: rat option]))"
proof -
  let ?xs = "[None, Some 1, Some 2, Some 3, Some 50, None :: rat option]"
  let ?a = "\<lparr>data = [(Name ''X'', NumCol ?xs)]\<rparr>"
  have h1: "distinct (map fst (data ?a))" by simp
  have h2: "(Name ''X'', NumCol ?xs) \<in> set (data ?a)" by simp
  show ?thesis
    using count_outliers_skips_missing [OF h1 h2] h1 h2 by blast
qed

subsection \<open>The scenario with two injected values\<close>

lemma sort_between:
  fixes a b :: rat
  assumes "sorted g" "\<forall>x\<in>set g. a \<le> x \<and> x \<le> b" "a \<le> b"
  shows "sort (g @ [a, b]) = a # g @ [b]"
proof (rule properties_for_sort)
  show "mset (a # g @ [b]) = mset (g @ [a, b])" by simp
  show "sorted (a # g @ [b])" using assms by (auto simp: sorted_append)
qed

lemma grid_sorted: "sorted (map (\<lambda>i. 100 * of_nat i / (99 :: rat)) [0..<n])"
  by (auto simp: sorted_iff_nth_mono divide_le_cancel)

lemma grid_range:
  "\<forall>x\<in>set (map (\<lambda>i. 100 * of_nat i / (99 :: rat)) [0..<100]). 0 \<le> x \<and> x \<le> 100"
proof
  fix x assume "x \<in> set (map (\<lambda>i. 100 * of_nat i / (99 :: rat)) [0..<100])"
  then obtain i :: nat where i: "i < 100" "x = 100 * of_nat i / 99" by auto
  have "(of_nat i :: rat) \<le> 99" using i(1) by simp
  then show "0 \<le> x \<and> x \<le> 100" by (simp add: i(2))
qed

text \<open>
  C6. The column \<open>X\<close> holds the hundred evenly spaced values \<open>0, 100/99, \<dots>, 100\<close>
  (the reading of "uniformly distributed in [0,100]" taken here) followed by the two
  injected values \<open>-1000\<close> and \<open>1000\<close>. The count that \<^verbatim>\<open>count_outliers\<close> reports for
  \<open>X\<close> is 2.
\<close>

theorem count_outliers_scenario:
  "map_sum id outliers (count_outliers
     \<lparr>data = [(Name ''X'', NumCol (map Some (map (\<lambda>i. 100 * of_nat i / 99) [0..<100])
                              @ [Some (- 1000), Some 1000]))]\<rparr>) = Inr [(Name ''X'', 2)]"
proof -
  define g :: "rat list" where "g = map (\<lambda>i. 100 * of_nat i / 99) [0..<100]"
  define X where "X = map Some g @ [Some (- 1000), Some 1000]"
  have len: "length g = 100" by (simp add: g_def)
  have rg: "\<forall>x\<in>set g. 0 \<le> x \<and> x \<le> 100" unfolding g_def by (rule grid_range)
  have dn: "dropna X = g @ [- 1000, 1000]"
    by (simp add: X_def dropna_append dropna_map_Some) (simp add: dropna_def)
  have srt: "sort (g @ [- 1000, 1000]) = (- 1000) # g @ [1000]"
  proof (rule sort_between)
    show "sorted g" unfolding g_def by (rule grid_sorted)
    show "\<forall>x\<in>set g. - 1000 \<le> x \<and> x \<le> 1000" using rg by force
  qed simp
  have nth: "i < 100 \<Longrightarrow> g ! i = 100 * of_nat i / 99" for i by (simp add: g_def)
  have s25: "((- 1000) # g @ [1000]) ! 25 = 2400 / 99" using nth [of 24] by (simp add: nth_append len)
  have s26: "((- 1000) # g @ [1000]) ! 26 = 2500 / 99" using nth [of 25] by (simp add: nth_append len)
  have s75: "((- 1000) # g @ [1000]) ! 75 = 7400 / 99" using nth [of 74] by (simp add: nth_append len)
  have s76: "((- 1000) # g @ [1000]) ! 76 = 7500 / 99" using nth [of 75] by (simp add: nth_append len)
  have f1: "\<lfloor>101 / 4 :: rat\<rfloor> = 25" by (rule floor_unique) simp_all
  have f3: "\<lfloor>303 / 4 :: rat\<rfloor> = 75" by (rule floor_unique) simp_all
  have Q1: "percentile (dropna X) (1 / 4) = Some (2425 / 99)"
    unfolding dn percentile_def Let_def srt length_Cons length_append len list.size
    by (simp add: f1 s25 s26 lerp_def del: nth_Cons_numeral)
  have Q3: "percentile (dropna X) (3 / 4) = Some (7475 / 99)"
    unfolding dn percentile_def Let_def srt length_Cons length_append len list.size
    by (simp add: f3 s75 s76 lerp_def del: nth_Cons_numeral)
  have lo: "fence_lo X = Some (- 5150 / 99)"
    by (simp add: fence_lo_def Q1 Q3 nan_lift2_def)
  have hi: "fence_hi X = Some (15050 / 99)"
    by (simp add: fence_hi_def Q1 Q3 nan_lift2_def)
  have inside: "filter (\<lambda>x. nan_less x (Some (- 5150 / 99)) \<or> nan_less (Some (15050 / 99)) x)
      (map Some g) = []"
    unfolding filter_empty_conv using rg by fastforce
  have "length (filter (\<lambda>x. nan_less x (Some (- 5150 / 99)) \<or> nan_less (Some (15050 / 99)) x) X) = 2"
    unfolding X_def filter_append inside by simp
  then have cnt: "length (filter (\<lambda>x. nan_less x (fence_lo X) \<or> nan_less (fence_hi X) x) X) = 2"
    by (simp only: lo hi)
  have nd: "get_numeric_data (data \<lparr>data = [(Name ''X'', NumCol X)]\<rparr>) = [(Name ''X'', X)]"
    by (simp add: get_numeric_data_def)
  have "distinct (map fst (data \<lparr>data = [(Name ''X'', NumCol X)]\<rparr>))" by simp
  from count_outliers_eval [OF this] obtain r where
    "count_outliers \<lparr>data = [(Name ''X'', NumCol X)]\<rparr> = Inr r" "outliers r = [(Name ''X'', 2)]"
    unfolding nd by (auto simp: cnt)
  then show ?thesis unfolding X_def g_def by simp
qed

section \<open>missing_values\<close>

lemma mask_mean_isna:
  "mask_mean (isna col) =
     (if total_rows col = 0 then None
      else Some (of_nat (missing_count col) / of_nat (total_rows col)))"
  by (cases col) (simp_all add: mask_mean_def filter_map o_def)

text \<open>
  C3. The report of \<^verbatim>\<open>missing_values\<close> holds an entry for a column exactly when the
  fraction of its rows that are missing is greater than zero (a column of no rows has
  no such fraction and is left out), and the value of the entry is
  \<open>missing_count / total_rows * 100\<close>.
\<close>

theorem missing_values_report:
  "(c, v) \<in> set (missing_values self) \<longleftrightarrow>
     (\<exists>col. (c, col) \<in> set (data self) \<and> 0 < total_rows col
        \<and> (0 :: rat) < of_nat (missing_count col) / of_nat (total_rows col)
        \<and> v = Some (of_nat (missing_count col) / of_nat (total_rows col) * 100))"
proof
  assume "(c, v) \<in> set (missing_values self)"
  then obtain col where col: "(c, col) \<in> set (data self)"
      "v = nan_lift2 (*) (mask_mean (isna col)) (Some 100)" "nan_less (Some 0) v"
    by (auto simp: missing_values_def)
  show "\<exists>col. (c, col) \<in> set (data self) \<and> 0 < total_rows col
        \<and> (0 :: rat) < of_nat (missing_count col) / of_nat (total_rows col)
        \<and> v = Some (of_nat (missing_count col) / of_nat (total_rows col) * 100)"
  proof (cases "total_rows col = 0")
    case True
    then show ?thesis using col by (simp add: mask_mean_isna nan_lift2_def)
  next
    case False
    define f :: rat where "f = of_nat (missing_count col) / of_nat (total_rows col)"
    have v: "v = Some (f * 100)"
      using col(2) False by (simp add: mask_mean_isna nan_lift2_def f_def)
    then have "0 < f * 100" using col(3) by simp
    then have "0 < f" by linarith
    then show ?thesis using False v col(1) unfolding f_def by auto
  qed
next
  assume "\<exists>col. (c, col) \<in> set (data self) \<and> 0 < total_rows col
        \<and> (0 :: rat) < of_nat (missing_count col) / of_nat (total_rows col)
        \<and> v = Some (of_nat (missing_count col) / of_nat (total_rows col) * 100)"
  then obtain col where col: "(c, col) \<in> set (data self)" "0 < total_rows col"
      "(0 :: rat) < of_nat (missing_count col) / of_nat (total_rows col)"
      "v = Some (of_nat (missing_count col) / of_nat (total_rows col) * 100)"
    by blast
  define f :: rat where "f = of_nat (missing_count col) / of_nat (total_rows col)"
  have vf: "v = Some (f * 100)" using col(4) by (simp add: f_def)
  have v: "v = nan_lift2 (*) (mask_mean (isna col)) (Some 100)"
    using col(2) vf by (simp add: mask_mean_isna nan_lift2_def f_def)
  have "0 < f" using col(3) by (simp add: f_def)
  then have "0 < f * 100" by linarith
  then have "nan_less (Some 0) v" unfolding vf by simp
  then have "(c, v) \<in> set (filter (\<lambda>(c, v). nan_less (Some 0) v)
      (map (\<lambda>(c, col). (c, nan_lift2 (*) (mask_mean (isna col)) (Some 100))) (data self)))"
    using col(1) v by force
  then show "(c, v) \<in> set (missing_values self)" by (simp add: missing_values_def)
qed

theorem missing_values_report_witness:
  "(Name ''Amount'', Some 25) \<in> set (missing_values
      \<lparr>data = [(Name ''Id'', StrCol [Some ''a'', Some ''b'', Some ''c'', Some ''d'']),
               (Name ''Amount'', NumCol [Some 5, None, Some 7, Some 8])]\<rparr>)
   \<and> (\<forall>v. (Name ''Id'', v) \<notin> set (missing_values
      \<lparr>data = [(Name ''Id'', StrCol [Some ''a'', Some ''b'', Some ''c'', Some ''d'']),
               (Name ''Amount'', NumCol [Some 5, None, Some 7, Some 8])]\<rparr>))"
proof -
  let ?a = "\<lparr>data = [(Name ''Id'', StrCol [Some ''a'', Some ''b'', Some ''c'', Some ''d'']),
               (Name ''Amount'', NumCol [Some 5, None, Some 7, Some 8 :: rat option])]\<rparr>"
  have "(Name ''Amount'', Some 25) \<in> set (missing_values ?a)"
    unfolding missing_values_report by (rule exI [of _ "NumCol [Some 5, None, Some 7, Some 8]"]) simp
  moreover have "(Name ''Id'', v) \<notin> set (missing_values ?a)" for v
    unfolding missing_values_report by auto
  ultimately show ?thesis by blast
qed

section \<open>describe_skewness\<close>

lemma powr_three_halves: "0 < x \<Longrightarrow> x powr (3 / 2) = x * sqrt x" for x :: real
proof -
  assume x: "0 < x"
  have "x powr (3 / 2) = x powr (1 + 1 / 2)" by simp
  also have "\<dots> = x powr 1 * x powr (1 / 2)" by (rule powr_add)
  also have "\<dots> = x * sqrt x" using x by (simp add: powr_half_sqrt)
  finally show ?thesis .
qed

lemma skewness_forms:
  fixes n M2 M3 :: real
  assumes n: "3 \<le> n" and M2: "0 < M2"
  shows "n * sqrt (n - 1) / (n - 2) * (M3 / (M2 powr (3 / 2)))
       = sqrt (n * (n - 1)) / (n - 2) * ((M3 / n) / sqrt (M2 / n) ^ 3)"
proof -
  have n0: "0 < n" using n by simp
  have sn: "sqrt n * sqrt n = n" using n0 by simp
  have s2: "sqrt M2 * sqrt M2 = M2" using M2 by simp
  have sq: "sqrt (M2 / n) = sqrt M2 / sqrt n" by (rule real_sqrt_divide)
  have cube: "sqrt (M2 / n) ^ 3 = M2 * sqrt M2 / (n * sqrt n)"
    unfolding sq power3_eq_cube using sn s2 by (simp add: field_simps) 
  have sn0: "sqrt n \<noteq> 0" using n0 by simp
  have sm0: "sqrt M2 \<noteq> 0" using M2 by simp
  have "(M3 / n) / sqrt (M2 / n) ^ 3 = M3 * sqrt n / (M2 * sqrt M2)"
    unfolding cube using n0 M2 sn0 sm0 by (simp add: field_simps)
  moreover have "sqrt (n * (n - 1)) = sqrt n * sqrt (n - 1)" by (rule real_sqrt_mult)
  ultimately have "sqrt (n * (n - 1)) / (n - 2) * ((M3 / n) / sqrt (M2 / n) ^ 3)
      = (sqrt n * sqrt n) * sqrt (n - 1) / (n - 2) * (M3 / (M2 * sqrt M2))"
    by simp
  also have "\<dots> = n * sqrt (n - 1) / (n - 2) * (M3 / (M2 * sqrt M2))"
    unfolding sn ..
  finally show ?thesis using powr_three_halves [OF M2] by simp
qed


lemma deviation_sums:
  "sum_list (map (\<lambda>a. a * a) (map (\<lambda>v. v - mu) vs)) = sum_list (map (\<lambda>v. (v - mu) ^ 2) vs)"
  "sum_list (map (\<lambda>a. a * a * a) (map (\<lambda>v. v - mu) vs)) = sum_list (map (\<lambda>v. (v - mu) ^ 3) vs)"
  for mu :: rat
  by (simp_all add: o_def power2_eq_square power3_eq_cube)

lemma sum_squares_nonneg: "0 \<le> sum_list (map (\<lambda>v. (v - mu) ^ 2) vs)" for mu :: rat
  by (induction vs) auto

lemma nanskew_reported: "nanskew xs = reported_skewness (dropna xs)"
proof (cases "length (dropna xs) < 3")
  case True
  then show ?thesis by (simp add: nanskew_def reported_skewness_def Let_def)
next
  case False
  define vs where "vs = dropna xs"
  define mu where "mu = sum_list vs / of_nat (length vs)"
  define S2 where "S2 = sum_list (map (\<lambda>v. (v - mu) ^ 2) vs)"
  define S3 where "S3 = sum_list (map (\<lambda>v. (v - mu) ^ 3) vs)"
  have n3: "3 \<le> length vs" using False by (simp add: vs_def)
  have c2: "of_nat (length vs) * central_moment 2 vs = S2"
    using n3 by (simp add: central_moment_def Let_def S2_def mu_def)
  have c3: "of_nat (length vs) * central_moment 3 vs = S3"
    using n3 by (simp add: central_moment_def Let_def S3_def mu_def)
  have code: "nanskew xs =
      (if zero_out_fperr S2 = 0 then Some 0
       else Some (of_nat (length vs) * sqrt (of_nat (length vs - 1)) / of_nat (length vs - 2)
                  * (of_rat (zero_out_fperr S3) / (of_rat (zero_out_fperr S2) powr (3 / 2)))))"
    using n3 unfolding nanskew_def Let_def vs_def [symmetric] mu_def [symmetric] deviation_sums
      S2_def [symmetric] S3_def [symmetric] by simp
  have spec: "reported_skewness vs =
      (if negligible S2 \<or> negligible S3 then Some 0 else Some (sample_skewness vs))"
    using n3 unfolding reported_skewness_def c2 c3 by simp
  show ?thesis
  proof (cases "negligible S2")
    case True
    then show ?thesis unfolding code spec vs_def [symmetric]
      by (simp add: zero_out_fperr_def negligible_def)
  next
    case big2: False
    have S2pos: "0 < S2"
      using big2 sum_squares_nonneg [of mu vs] by (simp add: negligible_def S2_def)
    have z2: "zero_out_fperr S2 = S2" using big2 by (simp add: zero_out_fperr_def negligible_def)
    show ?thesis
    proof (cases "negligible S3")
      case True
      then show ?thesis unfolding code spec vs_def [symmetric] z2 using S2pos
        by (simp add: zero_out_fperr_def negligible_def)
    next
      case big3: False
      have z3: "zero_out_fperr S3 = S3" using big3 by (simp add: zero_out_fperr_def negligible_def)
      have n: "3 \<le> real (length vs)" using n3 by simp
      have M2: "0 < (of_rat S2 :: real)" using S2pos by (simp add: zero_less_of_rat_iff)
      have "central_moment 2 vs = S2 / of_nat (length vs)"
        by (simp add: central_moment_def Let_def S2_def mu_def)
      then have m2: "of_rat (central_moment 2 vs) = (of_rat S2 :: real) / real (length vs)"
        by (simp add: of_rat_divide)
      have "central_moment 3 vs = S3 / of_nat (length vs)"
        by (simp add: central_moment_def Let_def S3_def mu_def)
      then have m3: "of_rat (central_moment 3 vs) = (of_rat S3 :: real) / real (length vs)"
        by (simp add: of_rat_divide)
      have r1: "real (length vs - 1) = real (length vs) - 1" using n3 by (simp add: of_nat_diff)
      have r2: "real (length vs - 2) = real (length vs) - 2" using n3 by (simp add: of_nat_diff)
      have "sample_skewness vs =
          sqrt (real (length vs) * (real (length vs) - 1)) / (real (length vs) - 2)
            * ((of_rat S3 / real (length vs)) / sqrt (of_rat S2 / real (length vs)) ^ 3)"
        by (simp only: sample_skewness_def standardized_third_moment_def Let_def m2 m3)
      also have "\<dots> = real (length vs) * sqrt (real (length vs) - 1) / (real (length vs) - 2)
            * (of_rat S3 / (of_rat S2 powr (3 / 2)))"
        by (rule skewness_forms [OF n M2, symmetric])
      finally have "sample_skewness vs =
          of_nat (length vs) * sqrt (of_nat (length vs - 1)) / of_nat (length vs - 2)
            * (of_rat S3 / (of_rat S2 powr (3 / 2)))"
        by (simp only: r1 r2)
      then show ?thesis unfolding code spec vs_def [symmetric] z2 z3 using big2 big3 S2pos
        by simp
    qed
  qed
qed
















lemma sqrt3_bounds: "1732 / 1000 < sqrt 3" "sqrt 3 < 17325 / 10000"
proof -
  show "1732 / 1000 < sqrt 3" by (rule real_less_rsqrt) (simp add: power2_eq_square)
  show "sqrt 3 < 17325 / 10000" by (rule real_less_lsqrt) (simp_all add: power2_eq_square)
qed

lemma round_half_even_down:
  assumes "of_int z \<le> x" "x < of_int z + 1 / 2"
  shows "round_half_even x = z"
proof -
  have f: "\<lfloor>x\<rfloor> = z" using assms by (intro floor_unique; linarith)
  have "x - of_int z < 1 / 2" using assms by linarith
  then show ?thesis unfolding round_half_even_def Let_def f by simp
qed


lemma round3_sqrt3: "round3 (sqrt 3) = 1732 / 1000"
proof -
  have h: "round_half_even (sqrt 3 * 1000) = 1732"
    using sqrt3_bounds by (intro round_half_even_down) simp_all
  show ?thesis unfolding round3_def h by simp
qed



lemma sample_skewness_right_tail:
  assumes "0 < a"
  shows "sample_skewness [0, 0, a] = sqrt 3"
proof -
  define x :: real where "x = of_rat a"
  have x: "0 < x" using assms by (simp add: x_def zero_less_of_rat_iff)
  have c2: "central_moment 2 [0, 0, a] = 2 * a ^ 2 / 9"
    by (simp add: central_moment_def Let_def power2_eq_square field_simps)
  have c3: "central_moment 3 [0, 0, a] = 2 * a ^ 3 / 27"
    by (simp add: central_moment_def Let_def power3_eq_cube field_simps)
  have r2: "(of_rat (2 * a ^ 2 / 9) :: real) = (sqrt 2 * x / 3) ^ 2"
    by (simp add: x_def of_rat_divide of_rat_mult of_rat_power power2_eq_square field_simps)
  have s: "sqrt (of_rat (2 * a ^ 2 / 9)) = sqrt 2 * x / 3"
    unfolding r2 using x by (simp add: real_sqrt_abs)
  have r3: "(of_rat (2 * a ^ 3 / 27) :: real) = 2 * x ^ 3 / 27"
    by (simp add: x_def of_rat_divide of_rat_mult of_rat_power)
  have cube: "(sqrt 2 * x / 3) ^ 3 = 2 * sqrt 2 * x ^ 3 / 27"
    by (simp add: power3_eq_cube field_simps)
  have "standardized_third_moment [0, 0, a] = (2 * x ^ 3 / 27) / (2 * sqrt 2 * x ^ 3 / 27)"
    unfolding standardized_third_moment_def c2 c3 s r3 cube ..
  also have "\<dots> = 1 / sqrt 2" using x by (simp add: field_simps)
  finally have st: "standardized_third_moment [0, 0, a] = 1 / sqrt 2" .
  have "sqrt 6 = sqrt 2 * sqrt 3" using real_sqrt_mult [of 2 3] by simp
  then show ?thesis by (simp add: sample_skewness_def Let_def st)
qed



lemma reported_right_tail: "reported_skewness [0, 0, 1] = Some (sqrt 3)"
proof -
  have "central_moment 2 [0, 0, 1] = 2 / 9" "central_moment 3 [0, 0, 1] = 2 / 27"
    by (simp_all add: central_moment_def Let_def power2_eq_square power3_eq_cube)
  then show ?thesis
    using sample_skewness_right_tail [of 1] by (simp add: reported_skewness_def negligible_def)
qed









section \<open>categorical_distribution\<close>

lemma group_keys_distinct: "distinct (group_keys col)"
  by (cases col) (simp_all add: distinct_map inj_on_def)

lemma groupby_size_distinct:
  assumes "groupby_size ds c = Inr sizes"
  shows "distinct (map fst sizes)"
proof -
  obtain col where "sizes = map (\<lambda>k. (k, length (filter (\<lambda>x. x = Some k) (cell_labels col))))
      (group_keys col)"
    using assms by (auto simp: groupby_size_def split: sum.splits)
  then have "map fst sizes = group_keys col" by (simp add: o_def)
  then show ?thesis by (simp add: group_keys_distinct)
qed

lemma getitem_missing:
  assumes "c \<notin> fst ` set ds"
  shows "getitem ds c = Inl (KeyError c)"
proof -
  have "map_of ds c = None" using assms by (simp only: map_of_eq_None_iff not_False_eq_True)
  then show ?thesis by (simp add: getitem_def)
qed

lemma groupby_size_missing:
  "c \<notin> fst ` set ds \<Longrightarrow> groupby_size ds c = Inl (KeyError c)"
  by (simp add: groupby_size_def getitem_missing)

lemma groupby_size_present:
  "c \<in> fst ` set ds \<Longrightarrow> \<exists>sizes. groupby_size ds c = Inr sizes"
  by (auto simp: groupby_size_def getitem_def map_of_eq_None_iff split: option.splits)

lemma categorical_loop_missing:
  assumes "\<exists>c \<in> snd ` set cols. c \<notin> fst ` set ds"
  shows "\<exists>k \<in> snd ` set cols. k \<notin> fst ` set ds
      \<and> (\<forall>idx. categorical_loop ds cols idx = Inl (KeyError k))"
  using assms
proof (induction cols)
  case Nil
  then show ?case by simp
next
  case (Cons p cols)
  obtain i c where p: "p = (i, c)" by (cases p)
  show ?case
  proof (cases "c \<in> fst ` set ds")
    case False
    then have "\<forall>idx. categorical_loop ds (p # cols) idx = Inl (KeyError c)"
      by (simp add: p groupby_size_missing)
    then show ?thesis using False by (auto simp: p)
  next
    case True
    then obtain sizes where sizes: "groupby_size ds c = Inr sizes"
      using groupby_size_present by blast
    have "distinct (map fst (sort_key snd sizes))"
      using groupby_size_distinct [OF sizes] by (rule distinct_fst_sort_key)
    then have "annotate (sort_key snd sizes) [0..<length (sort_key snd sizes)] =
        Inr (map snd (sort_key snd sizes))"
      by (rule annotate_all)
    then have ann: "annotate (sort_key snd sizes) [0..<length sizes] =
        Inr (map snd (sort_key snd sizes))"
      by simp
    have "\<exists>c \<in> snd ` set cols. c \<notin> fst ` set ds"
      using Cons.prems True by (auto simp: p)
    from Cons.IH [OF this]
    obtain k where k: "k \<in> snd ` set cols" "k \<notin> fst ` set ds"
        "\<And>idx. categorical_loop ds cols idx = Inl (KeyError k)"
      by blast
    have "\<forall>idx. categorical_loop ds (p # cols) idx = Inl (KeyError k)"
      by (simp add: p sizes ann k(3) Let_def)
    then show ?thesis using k(1,2) by auto
  qed
qed

text \<open>
  C5. The frame holds the four columns; \<^verbatim>\<open>ChannelId\<close> has a single category. All
  four charts are drawn with their counts ascending and annotated, and then the axes
  1, 2 and 3 are removed: the inner loop over the patches has left \<^verbatim>\<open>idx\<close> at 0, so
  the cleanup \<^verbatim>\<open>range(idx+1, len(columns_of_interest))\<close> deletes three drawn charts
  and only the chart of \<^verbatim>\<open>CurrencyCode\<close> remains.
\<close>

theorem categorical_distribution_removes_drawn_charts:
  "map_sum id (\<lambda>r. (map chart_bars (charts r), map chart_annotations (charts r),
                    removed_axes r, map chart_column (remaining_charts r)))
     (categorical_distribution
       \<lparr>data = [(Name ''CurrencyCode'', StrCol [Some ''UGX'', Some ''UGX'', Some ''UGX'']),
                (Name ''ProviderId'', StrCol [Some ''P1'', Some ''P2'', Some ''P2'']),
                (Name ''ProductCategory'', StrCol [Some ''airtime'', Some ''data'', Some ''airtime'']),
                (Name ''ChannelId'', StrCol [Some ''C3'', Some ''C3'', Some ''C3''])]\<rparr>)
   = Inr ([[(Name ''UGX'', 3)], [(Name ''P1'', 1), (Name ''P2'', 2)],
           [(Name ''data'', 1), (Name ''airtime'', 2)], [(Name ''C3'', 3)]],
          [[3], [1, 2], [1, 2], [3]],
          [1, 2, 3],
          [Name ''CurrencyCode''])"
  by code_simp

section \<open>Missing columns\<close>

text \<open>
  C9. A method that names a column which the frame lacks raises KeyError and returns
  nothing: \<^verbatim>\<open>fraud_analysis\<close> without \<^verbatim>\<open>FraudResult\<close> raises it for that label,
  without \<^verbatim>\<open>Amount\<close> it raises KeyError as well (for \<^verbatim>\<open>FraudResult\<close>, for the
  group 1 or for \<^verbatim>\<open>Amount\<close>), and \<^verbatim>\<open>categorical_distribution\<close> without one of
  its four columns raises it for a column of the four that the frame lacks.
\<close>

theorem missing_column_raises:
  "(Name ''FraudResult'' \<notin> fst ` set (data self) \<longrightarrow>
      fraud_analysis self = Inl (KeyError (Name ''FraudResult'')))
   \<and> (Name ''Amount'' \<notin> fst ` set (data self) \<longrightarrow>
      (\<exists>k. fraud_analysis self = Inl (KeyError k)))
   \<and> (c \<in> set columns_of_interest \<and> c \<notin> fst ` set (data self) \<longrightarrow>
      (\<exists>k \<in> set columns_of_interest. k \<notin> fst ` set (data self)
         \<and> categorical_distribution self = Inl (KeyError k)))"
proof (intro conjI impI)
  assume "Name ''FraudResult'' \<notin> fst ` set (data self)"
  then have "getitem (data self) (Name ''FraudResult'') = Inl (KeyError (Name ''FraudResult''))"
    by (rule getitem_missing)
  then show "fraud_analysis self = Inl (KeyError (Name ''FraudResult''))"
    by (simp add: fraud_analysis_def)
next
  assume "Name ''Amount'' \<notin> fst ` set (data self)"
  then have a: "getitem (data self) (Name ''Amount'') = Inl (KeyError (Name ''Amount''))"
    by (rule getitem_missing)
  show "\<exists>k. fraud_analysis self = Inl (KeyError k)"
  proof (cases "getitem (data self) (Name ''FraudResult'')")
    case (Inl e)
    then have "e = KeyError (Name ''FraudResult'')"
      by (auto simp: getitem_def split: option.splits)
    then show ?thesis using Inl by (simp add: fraud_analysis_def)
  next
    case (Inr fcol)
    then show ?thesis using a by (simp add: fraud_analysis_def)
  qed
next
  assume "c \<in> set columns_of_interest \<and> c \<notin> fst ` set (data self)"
  then have "\<exists>c \<in> snd ` set (enumerate 0 columns_of_interest). c \<notin> fst ` set (data self)"
    by (auto simp: columns_of_interest_def)
  from categorical_loop_missing [OF this]
  obtain k where k: "k \<in> snd ` set (enumerate 0 columns_of_interest)"
      "k \<notin> fst ` set (data self)"
      "categorical_loop (data self) (enumerate 0 columns_of_interest) 0 = Inl (KeyError k)"
    by blast
  have "k \<in> set columns_of_interest" using k(1) by (auto simp: columns_of_interest_def)
  then show "\<exists>k \<in> set columns_of_interest. k \<notin> fst ` set (data self)
         \<and> categorical_distribution self = Inl (KeyError k)"
    using k(2,3) by (auto simp: categorical_distribution_def)
qed

theorem missing_column_raises_witness:
  "Name ''FraudResult'' \<notin> fst ` set (data \<lparr>data = [(Name ''Amount'', NumCol [Some 10])]\<rparr>)
   \<and> fraud_analysis \<lparr>data = [(Name ''Amount'', NumCol [Some 10])]\<rparr>
        = Inl (KeyError (Name ''FraudResult''))
   \<and> Name ''ChannelId'' \<in> set columns_of_interest
   \<and> Name ''ChannelId'' \<notin> fst ` set (data \<lparr>data = [(Name ''Amount'', NumCol [Some 10])]\<rparr>)
   \<and> (\<exists>k. categorical_distribution \<lparr>data = [(Name ''Amount'', NumCol [Some 10])]\<rparr>
        = Inl (KeyError k))"
proof -
  let ?a = "\<lparr>data = [(Name ''Amount'', NumCol [Some 10])]\<rparr>"
  have h1: "Name ''FraudResult'' \<notin> fst ` set (data ?a)" by simp
  have h2: "Name ''ChannelId'' \<in> set columns_of_interest" by (simp add: columns_of_interest_def)
  have h3: "Name ''ChannelId'' \<notin> fst ` set (data ?a)" by simp
  show ?thesis
    using missing_column_raises [of ?a "Name ''ChannelId''"] h1 h2 h3 by blast
qed

section \<open>Calls on the same axes\<close>

text \<open>
  C7. What a call gives depends on what earlier calls drew. On a frame with the one
  numeric column 0, 0, 1 a first call of \<^verbatim>\<open>describe_skewness\<close>, on fresh axes,
  writes 1.732 over its bar and leaves one bar on the axes. A second call on the same
  analyzer, with no figure opened in between, draws on the same axes and finds two
  bars among \<^verbatim>\<open>ax.patches\<close>: at the second one \<^verbatim>\<open>columns[1]\<close> raises IndexError.
\<close>

theorem describe_skewness_second_call_raises:
  "describe_skewness_on 0 \<lparr>data = [(Name ''Amount'', NumCol [Some 0, Some 0, Some 1])]\<rparr>
     = (Inr \<lparr>skewness_data = [(Name ''Amount'', Some (1732 / 1000))],
             skewness_annotations = [Some (1732 / 1000)]\<rparr>, 1)
   \<and> describe_skewness_on 1 \<lparr>data = [(Name ''Amount'', NumCol [Some 0, Some 0, Some 1])]\<rparr>
     = (Inl IndexError, 2)"
proof -
  have n: "nanskew [Some 0, Some 0, Some 1] = Some (sqrt 3)"
    unfolding nanskew_reported by (simp add: dropna_def reported_right_tail)
  have sd: "map (\<lambda>(c, v). (c, map_option round3 v))
      (sort_values (map (\<lambda>(c, xs). (c, nanskew xs))
         (get_numeric_data (data \<lparr>data = [(Name ''Amount'', NumCol [Some 0, Some 0, Some 1])]\<rparr>))))
      = [(Name ''Amount'', Some (1732 / 1000))]"
    by (simp add: get_numeric_data_def n sort_values_def present_entries_def round3_sqrt3)
  have k: "dropna [Some (1732 / 1000 :: real)] = [1732 / 1000]" by (simp add: dropna_def)
  have i1: "[0..<0 + length [1732 / 1000 :: real]] = [0]" by simp
  have i2: "[0..<1 + length [1732 / 1000 :: real]] = [0, 1]" by (simp add: upt_rec)
  show ?thesis
    unfolding describe_skewness_on_def Let_def sd list.map snd_conv k i1 i2 by simp
qed

end
